theory Spec2Isabelle
  imports Main "HOL-Library.Char_ord" "HOL-Library.List_Lexorder" "HOL-Library.AList"
begin

section \<open>Data model\<close>

text \<open>
  The structure builders of \<^verbatim>\<open>dfttk/structure_builders\<close> work on pymatgen structures.
  A structure is a lattice together with an ordered list of sites; a site carries the
  element of its (single-occupancy) species, which the code reads and writes as
  \<^verbatim>\<open>site['species'][0]['element']\<close>, a position, and a property bag.  Lattices and positions
  are never inspected by the code below, so they stay type parameters.  Python dicts are
  association lists: a key that is assigned again keeps its place, a new key goes last.
\<close>

datatype error =
    UnboundLocalError
  | IndexError
  | KeyError
  | TypeError
  | ValueError
  | IndentationError
  | TabError
  | SymmetryAnalysisFailure
  | SubstitutionFailure

type_synonym label = string

type_synonym props = "(string \<times> string) list"

record 'p site =
  element :: string
  coords :: 'p
  properties :: props

record ('l, 'p) Structure =
  lattice :: 'l
  sites :: "'p site list"

text \<open>
  \<^verbatim>\<open>SpacegroupAnalyzer(structure).get_symmetry_dataset()\<close> is an external collaborator.  It is a
  parameter of every function that consults it: a deterministic function of the structure
  that either fails or yields the per-site Wyckoff letters and the per-site
  equivalent-atom indices.
\<close>

record dataset =
  wyckoffs :: "label list"
  equivalent_atoms :: "nat list"

type_synonym ('l, 'p) analyzer = "('l, 'p) Structure \<Rightarrow> error + dataset"

section \<open>Python helpers\<close>

text \<open>\<^verbatim>\<open>d[k] = v\<close> and \<^verbatim>\<open>d.update(other)\<close> on a dict, \<^verbatim>\<open>dict(pairs)\<close>.\<close>

definition dict_update :: "('k \<times> 'v) list \<Rightarrow> ('k \<times> 'v) list \<Rightarrow> ('k \<times> 'v) list" where
  "dict_update d other = foldl (\<lambda>acc (k, v). AList.update k v acc) d other"

definition dict_py :: "('k \<times> 'v) list \<Rightarrow> ('k \<times> 'v) list" where
  "dict_py pairs = dict_update [] pairs"

text \<open>\<^verbatim>\<open>sorted(set(xs))\<close>: the distinct members of \<open>xs\<close> in ascending order; Python compares
  strings lexicographically by code point, which is the order of \<^typ>\<open>string\<close> here.\<close>

definition sorted_set :: "string list \<Rightarrow> string list" where
  "sorted_set xs = sort (remdups xs)"

text \<open>\<^verbatim>\<open>structure.species\<close> and \<^verbatim>\<open>structure.replace_species(mapping)\<close>.  The latter rewrites
  the structure object it is called on.\<close>

definition species :: "('l, 'p) Structure \<Rightarrow> string list" where
  "species s = map element (sites s)"

definition replace_species ::
  "(string \<times> string) list \<Rightarrow> ('l, 'p) Structure \<Rightarrow> ('l, 'p) Structure" where
  "replace_species species_mapping s =
     s\<lparr>sites := map (\<lambda>st. case map_of species_mapping (element st) of
                             Some e \<Rightarrow> st\<lparr>element := e\<rparr>
                           | None \<Rightarrow> st) (sites s)\<rparr>"

section \<open>Sublattice modeler (endmembers.py)\<close>

text \<open>
  Lines 38--42: the loop over \<^verbatim>\<open>true_sublattice_sites\<close>.  The state is \<^verbatim>\<open>site_list\<close> and the
  local \<^verbatim>\<open>subl_model_name\<close>, which is unbound (\<open>None\<close>) until the body has run once.
\<close>

fun site_loop ::
  "label list \<Rightarrow> label list \<Rightarrow> props list \<times> label list option
     \<Rightarrow> props list \<times> label list option" where
  "site_loop true_sublattice_sites [] st = st"
| "site_loop true_sublattice_sites (i # rest) (site_list, subl_model_name) =
     site_loop true_sublattice_sites rest
       (site_list @ [[(''sublattice_sites'', i)]],
        Some (sorted_set true_sublattice_sites))"

text \<open>
  Line 31: every species name of the structure is mapped to the dummy element \<^verbatim>\<open>"H"\<close> and
  the structure is rewritten through that mapping.
\<close>

definition normalized :: "('l, 'p) Structure \<Rightarrow> ('l, 'p) Structure" where
  "normalized strct = replace_species (map (\<lambda>sp. (sp, ''H'')) (species strct)) strct"

text \<open>
  \<^verbatim>\<open>get_sublattice_information\<close>.  The first component of the result is the caller's
  structure object as the call leaves it (line 31 calls \<^verbatim>\<open>replace_species\<close> on the argument
  itself); the second is the raised error or the returned pair.
\<close>

definition get_sublattice_information ::
  "('l, 'p) analyzer \<Rightarrow> ('l, 'p) Structure \<Rightarrow> (label \<rightharpoonup> label) option
     \<Rightarrow> ('l, 'p) Structure \<times> (error + props list \<times> label list)" where
  "get_sublattice_information sga strct equivalent_wyckoff_sites =
     (let structure' = normalized strct
      in case sga structure' of
           Inl e \<Rightarrow> (structure', Inl e)
         | Inr ds \<Rightarrow>
             (let wyckoff_sites = wyckoffs ds;
                  true_sublattice_sites =
                    (case equivalent_wyckoff_sites of
                       Some m \<Rightarrow> map (\<lambda>i. case m i of Some t \<Rightarrow> t | None \<Rightarrow> i) wyckoff_sites
                     | None \<Rightarrow> wyckoff_sites)
              in case site_loop true_sublattice_sites true_sublattice_sites ([], None) of
                   (site_list, None) \<Rightarrow> (structure', Inl UnboundLocalError)
                 | (site_list, Some subl_model_name) \<Rightarrow>
                     (structure', Inr (site_list, subl_model_name))))"

text \<open>
  \<^verbatim>\<open>str(Element.from_Z(Z))\<close> of pymatgen's periodic table: the symbol of atomic number \<open>Z\<close>,
  a \<^verbatim>\<open>ValueError\<close> for a number the table does not hold.
\<close>

definition element_symbols :: "string list" where
  "element_symbols =
     [
      ''H'', ''He'', ''Li'', ''Be'', ''B'', ''C'', ''N'', ''O'', ''F'', ''Ne'',
      ''Na'', ''Mg'', ''Al'', ''Si'', ''P'', ''S'', ''Cl'', ''Ar'', ''K'', ''Ca'',
      ''Sc'', ''Ti'', ''V'', ''Cr'', ''Mn'', ''Fe'', ''Co'', ''Ni'', ''Cu'', ''Zn'',
      ''Ga'', ''Ge'', ''As'', ''Se'', ''Br'', ''Kr'', ''Rb'', ''Sr'', ''Y'', ''Zr'',
      ''Nb'', ''Mo'', ''Tc'', ''Ru'', ''Rh'', ''Pd'', ''Ag'', ''Cd'', ''In'', ''Sn'',
      ''Sb'', ''Te'', ''I'', ''Xe'', ''Cs'', ''Ba'', ''La'', ''Ce'', ''Pr'', ''Nd'',
      ''Pm'', ''Sm'', ''Eu'', ''Gd'', ''Tb'', ''Dy'', ''Ho'', ''Er'', ''Tm'', ''Yb'',
      ''Lu'', ''Hf'', ''Ta'', ''W'', ''Re'', ''Os'', ''Ir'', ''Pt'', ''Au'', ''Hg'',
      ''Tl'', ''Pb'', ''Bi'', ''Po'', ''At'', ''Rn'', ''Fr'', ''Ra'', ''Ac'', ''Th'',
      ''Pa'', ''U'', ''Np'', ''Pu'', ''Am'', ''Cm'', ''Bk'', ''Cf'', ''Es'', ''Fm'',
      ''Md'', ''No'', ''Lr'', ''Rf'', ''Db'', ''Sg'', ''Bh'', ''Hs'', ''Mt'', ''Ds'',
      ''Rg'', ''Cn'', ''Nh'', ''Fl'', ''Mc'', ''Lv'', ''Ts'', ''Og''
     ]"

definition Element_from_Z :: "nat \<Rightarrow> error + string" where
  "Element_from_Z Z =
     (if 1 \<le> Z \<and> Z \<le> length element_symbols then Inr (element_symbols ! (Z - 1))
      else Inl ValueError)"

text \<open>
  Lines 70--72 of \<^verbatim>\<open>get_templates\<close>: for every site index, merge \<^verbatim>\<open>site_list[i]\<close> into the
  site's properties and overwrite its element with the sublattice label.  A short
  \<^verbatim>\<open>site_list\<close> raises \<^verbatim>\<open>IndexError\<close>.
\<close>

fun attach_loop :: "props list \<Rightarrow> nat list \<Rightarrow> 'p site list \<Rightarrow> error + 'p site list" where
  "attach_loop site_list [] dsites = Inr dsites"
| "attach_loop site_list (i # rest) dsites =
     (if i < length site_list then
        (case map_of (site_list ! i) ''sublattice_sites'' of
           None \<Rightarrow> Inl KeyError
         | Some l \<Rightarrow>
             attach_loop site_list rest
               (dsites[i := (dsites ! i)
                  \<lparr>element := l,
                   properties := dict_update (properties (dsites ! i)) (site_list ! i)\<rparr>]))
      else Inl IndexError)"

text \<open>
  Lines 73--78: for every sublattice index \<open>i\<close>, every site whose element equals
  \<^verbatim>\<open>true_sublattices[i]\<close> receives the symbol of atomic number \<open>i + 1\<close>, which is then appended
  to \<^verbatim>\<open>template_configuration\<close>.
\<close>

fun placeholder_loop ::
  "label list \<Rightarrow> nat list \<Rightarrow> 'p site list \<times> string list
     \<Rightarrow> error + 'p site list \<times> string list" where
  "placeholder_loop true_sublattices [] st = Inr st"
| "placeholder_loop true_sublattices (i # rest) (dsites, template_configuration) =
     (case Element_from_Z (i + 1) of
        Inl e \<Rightarrow> Inl e
      | Inr z \<Rightarrow>
          placeholder_loop true_sublattices rest
            (map (\<lambda>el. if element el = true_sublattices ! i then el\<lparr>element := z\<rparr> else el)
               dsites,
             template_configuration @ [z]))"

text \<open>
  \<^verbatim>\<open>get_templates\<close>.  As for \<^verbatim>\<open>get_sublattice_information\<close>, the first component is the
  caller's structure object after the call; \<^verbatim>\<open>structure.as_dict()\<close> on line 69 serialises
  that object as the sublattice analysis left it.
\<close>

definition get_templates ::
  "('l, 'p) analyzer \<Rightarrow> ('l, 'p) Structure \<Rightarrow> (label \<rightharpoonup> label) option
     \<Rightarrow> ('l, 'p) Structure \<times> (error + ('l, 'p) Structure \<times> string list)" where
  "get_templates sga strct equivalent_wyckoff_sites =
     (case get_sublattice_information sga strct equivalent_wyckoff_sites of
        (structure', Inl e) \<Rightarrow> (structure', Inl e)
      | (structure', Inr (site_list, true_sublattices)) \<Rightarrow>
          (let dict_struct = structure'
           in case attach_loop site_list [0..<length (sites dict_struct)] (sites dict_struct) of
                Inl e \<Rightarrow> (structure', Inl e)
              | Inr dsites \<Rightarrow>
                  (case placeholder_loop true_sublattices [0..<length true_sublattices]
                          (dsites, []) of
                     Inl e \<Rightarrow> (structure', Inl e)
                   | Inr (dsites', template_configuration) \<Rightarrow>
                       (structure',
                        Inr (dict_struct\<lparr>sites := dsites'\<rparr>, template_configuration)))))"

section \<open>Endmember generator (endmembers.py)\<close>

text \<open>
  \<^verbatim>\<open>substitutions.substitute_configuration\<close> is imported from a module that is not among the
  sources; the specification lists this Substitution Engine as an external collaborator,
  like the symmetry analysis.  The endmember generator takes it as a parameter: a function
  of the template structure, the template configuration and one configuration, both given
  as lists of sublattices, that fails or returns a structure.
\<close>

type_synonym ('l, 'p) engine =
  "('l, 'p) Structure \<Rightarrow> string list list \<Rightarrow> string list list \<Rightarrow> error + ('l, 'p) Structure"

text \<open>
  \<^verbatim>\<open>itertools.product(*pools)\<close>, after the equivalent code of its documentation:
  \<^verbatim>\<open>result = [[]]; for pool in pools: result = [x + [y] for x in result for y in pool]\<close>.
\<close>

definition product :: "'a list list \<Rightarrow> 'a list list" where
  "product pools =
     foldl (\<lambda>result pool. concat (map (\<lambda>x. map (\<lambda>y. x @ [y]) pool) result)) [[]] pools"

text \<open>Lines 107--109: one call of the substitution engine per combination; its errors
  propagate.\<close>

fun endmember_loop ::
  "('l, 'p) engine \<Rightarrow> ('l, 'p) Structure \<Rightarrow> string list \<Rightarrow> string list list
     \<Rightarrow> ('l, 'p) Structure list \<Rightarrow> error + ('l, 'p) Structure list" where
  "endmember_loop substitute template_structure template_configuration [] endmembers =
     Inr endmembers"
| "endmember_loop substitute template_structure template_configuration (i # rest) endmembers =
     (case substitute template_structure [template_configuration] [i] of
        Inl e \<Rightarrow> Inl e
      | Inr s \<Rightarrow>
          endmember_loop substitute template_structure template_configuration rest
            (endmembers @ [s]))"

text \<open>
  Lines 103--106: \<^verbatim>\<open>map\<close> over two sequences stops with the shorter one; the keys of
  \<^verbatim>\<open>element_dict\<close> are sorted as strings and \<^verbatim>\<open>element_dict.get\<close> is mapped over them.  A
  \<^verbatim>\<open>None\<close> among the pools would make \<^verbatim>\<open>product\<close> raise \<^verbatim>\<open>TypeError\<close>.
\<close>

definition subl_combination :: "string list \<Rightarrow> string list list \<Rightarrow> error + string list list" where
  "subl_combination template_configuration sublattice_configuration =
     (let element_dict = dict_py (zip template_configuration sublattice_configuration)
      in case those (map (map_of element_dict) (sort (map fst element_dict))) of
           None \<Rightarrow> Inl TypeError
         | Some pools \<Rightarrow> Inr (product pools))"

definition get_endmembers_with_templates ::
  "('l, 'p) engine \<Rightarrow> ('l, 'p) Structure \<Rightarrow> string list \<Rightarrow> string list list
     \<Rightarrow> error + ('l, 'p) Structure list" where
  "get_endmembers_with_templates substitute template_structure template_configuration
       sublattice_configuration =
     (case subl_combination template_configuration sublattice_configuration of
        Inl e \<Rightarrow> Inl e
      | Inr combs \<Rightarrow>
          endmember_loop substitute template_structure template_configuration combs [])"

text \<open>
  Modelled from the spec: \<^verbatim>\<open>substitutions.substitute_configuration\<close>, whose module is
  missing.  It is the engine used wherever a property speaks of the species an endmember
  carries.  The specification's Substitution Engine takes a structure, a template configuration and a concrete element
  assignment positionally aligned to it, and returns a new structure in which every site's
  placeholder species is replaced by the corresponding element, leaving site count,
  positions and property bags alone.  It fails when the assignment and the template
  configuration differ in length and when a placeholder occurs on no site of the template.
  Both arguments arrive as lists of sublattices.
\<close>

definition substitute_configuration ::
  "('l, 'p) Structure \<Rightarrow> string list list \<Rightarrow> string list list
     \<Rightarrow> error + ('l, 'p) Structure" where
  "substitute_configuration template_structure template_config config =
     (let placeholders = concat template_config; assignment = concat config
      in if length placeholders \<noteq> length assignment then Inl SubstitutionFailure
         else if \<not> list_all (\<lambda>p. p \<in> set (species template_structure)) placeholders
           then Inl SubstitutionFailure
         else Inr (replace_species (zip placeholders assignment) template_structure))"

section \<open>Dilute substitution generator (dilute.py)\<close>

text \<open>
  \<^verbatim>\<open>Counter(xs).keys()\<close>: a \<^verbatim>\<open>Counter\<close> is a dict from member to multiplicity, so its keys
  are the distinct members in order of first occurrence.
\<close>

definition Counter :: "'a list \<Rightarrow> ('a \<times> nat) list" where
  "Counter xs =
     foldl (\<lambda>d x. case map_of d x of
                     None \<Rightarrow> AList.update x 1 d
                   | Some n \<Rightarrow> AList.update x (n + 1) d) [] xs"

definition keys :: "('k \<times> 'v) list \<Rightarrow> 'k list" where
  "keys d = map fst d"

text \<open>
  Line 35, \<^verbatim>\<open>dictstr['sites'][i]['species'][0]['element'] = j\<close>, is \<open>set_element\<close>; the index is
  in range wherever it is used.
  Lines 33--36: the loop over the candidates for one representative site \<open>i\<close>.  The state is
  the serialised copy \<^verbatim>\<open>dictstr\<close>, overwritten at site \<open>i\<close> for every candidate that differs
  from \<^verbatim>\<open>old_ele\<close>, and the output list; \<^verbatim>\<open>Structure.from_dict\<close> takes a snapshot of
  \<^verbatim>\<open>dictstr\<close>.
\<close>

definition set_element :: "('l, 'p) Structure \<Rightarrow> nat \<Rightarrow> string \<Rightarrow> ('l, 'p) Structure" where
  "set_element dictstr i j =
     dictstr\<lparr>sites := (sites dictstr)[i := (sites dictstr ! i)\<lparr>element := j\<rparr>]\<rparr>"

fun candidate_loop ::
  "nat \<Rightarrow> string \<Rightarrow> string list \<Rightarrow> ('l, 'p) Structure \<times> ('l, 'p) Structure list
     \<Rightarrow> ('l, 'p) Structure \<times> ('l, 'p) Structure list" where
  "candidate_loop i old_ele [] st = st"
| "candidate_loop i old_ele (j # rest) (dictstr, dilute_strs) =
     (if old_ele \<noteq> j then
        (let dictstr' = set_element dictstr i j
         in candidate_loop i old_ele rest (dictstr', dilute_strs @ [dictstr']))
      else candidate_loop i old_ele rest (dictstr, dilute_strs))"

text \<open>Lines 30--36: the loop over the representative indices; an index outside the site
  list raises \<^verbatim>\<open>IndexError\<close>.\<close>

fun representative_loop ::
  "('l, 'p) Structure \<Rightarrow> string list \<Rightarrow> nat list \<Rightarrow> ('l, 'p) Structure list
     \<Rightarrow> error + ('l, 'p) Structure list" where
  "representative_loop strs element_dict [] dilute_strs = Inr dilute_strs"
| "representative_loop strs element_dict (i # rest) dilute_strs =
     (let dictstr = strs
      in if i < length (sites dictstr) then
           (let old_ele = element (sites dictstr ! i)
            in representative_loop strs element_dict rest
                 (snd (candidate_loop i old_ele element_dict (dictstr, dilute_strs))))
         else Inl IndexError)"

text \<open>Lines 25--37: the loop over the input structures; a failing symmetry analysis aborts
  the call.\<close>

fun structure_loop ::
  "('l, 'p) analyzer \<Rightarrow> string list \<Rightarrow> ('l, 'p) Structure list \<Rightarrow> ('l, 'p) Structure list
     \<Rightarrow> error + ('l, 'p) Structure list" where
  "structure_loop sga element_dict [] dilute_strs = Inr dilute_strs"
| "structure_loop sga element_dict (strs # rest) dilute_strs =
     (case sga strs of
        Inl e \<Rightarrow> Inl e
      | Inr ds \<Rightarrow>
          (let equal_atoms = equivalent_atoms ds;
               num = keys (Counter equal_atoms)
           in case representative_loop strs element_dict num dilute_strs of
                Inl e \<Rightarrow> Inl e
              | Inr dilute_strs' \<Rightarrow> structure_loop sga element_dict rest dilute_strs'))"

text \<open>
  Before any statement of a module runs, Python's tokenizer turns the leading whitespace
  of every logical line into indentation tokens.  It measures each line twice: \<open>col\<close>, where
  a tab advances to the next multiple of 8, and \<open>altcol\<close>, where a tab counts as one column.
\<close>

definition columns :: "string \<Rightarrow> nat \<times> nat" where
  "columns ws =
     foldl (\<lambda>(col, altcol) c.
              if c = CHR 0x09 then ((col div 8 + 1) * 8, altcol + 1)
              else (col + 1, altcol + 1))
       (0, 0) ws"

text \<open>
  The indentation stack holds the open levels above the outermost level \<open>(0, 0)\<close>, innermost
  first.  A line at the column of the innermost level continues the block, a line to its
  right opens a level, a line to its left closes levels until one is not to its right and
  must then sit exactly on it: otherwise \<^verbatim>\<open>IndentationError\<close> (unindent does not match any
  outer indentation level).  Where the two measures disagree the tokenizer raises
  \<^verbatim>\<open>TabError\<close>.
\<close>

definition top :: "(nat \<times> nat) list \<Rightarrow> nat \<times> nat" where
  "top indstack = (case indstack of [] \<Rightarrow> (0, 0) | level # below \<Rightarrow> level)"

fun dedent :: "nat \<Rightarrow> (nat \<times> nat) list \<Rightarrow> (nat \<times> nat) list" where
  "dedent col [] = []"
| "dedent col ((c, a) # below) = (if col < c then dedent col below else (c, a) # below)"

definition indent_line :: "(nat \<times> nat) list \<Rightarrow> string \<Rightarrow> error + (nat \<times> nat) list" where
  "indent_line indstack ws =
     (let (col, altcol) = columns ws
      in if col = fst (top indstack) then
           (if altcol \<noteq> snd (top indstack) then Inl TabError else Inr indstack)
         else if col > fst (top indstack) then
           (if altcol \<le> snd (top indstack) then Inl TabError
            else Inr ((col, altcol) # indstack))
         else
           (let indstack' = dedent col indstack
            in if col \<noteq> fst (top indstack') then Inl IndentationError
               else if altcol \<noteq> snd (top indstack') then Inl TabError
               else Inr indstack'))"

fun indentation :: "(nat \<times> nat) list \<Rightarrow> string list \<Rightarrow> error + unit" where
  "indentation indstack [] = Inr ()"
| "indentation indstack (ws # rest) =
     (case indent_line indstack ws of
        Inl e \<Rightarrow> Inl e
      | Inr indstack' \<Rightarrow> indentation indstack' rest)"

text \<open>
  The leading whitespace of the logical lines of \<^verbatim>\<open>dilute.py\<close>, blank lines left out as the
  tokenizer does: lines 1--9 (module docstring and imports) and the \<^verbatim>\<open>def\<close> of line 10 start
  at the margin; the docstring of the function, lines 11--23, is one logical line and
  starts with a tab; the statements of lines 24--37 are indented with spaces, four for
  each level.
\<close>

definition dilute_py :: "string list" where
  "dilute_py =
     replicate 9 [] @
     [[],
      [CHR 0x09],
      replicate 4 (CHR '' ''),
      replicate 4 (CHR '' ''),
      replicate 8 (CHR '' ''),
      replicate 8 (CHR '' ''),
      replicate 8 (CHR '' ''),
      replicate 8 (CHR '' ''),
      replicate 8 (CHR '' ''),
      replicate 12 (CHR '' ''),
      replicate 12 (CHR '' ''),
      replicate 12 (CHR '' ''),
      replicate 16 (CHR '' ''),
      replicate 20 (CHR '' ''),
      replicate 20 (CHR '' ''),
      replicate 4 (CHR '' '')]"

text \<open>
  \<^verbatim>\<open>dilute_substitution\<close> as a caller reaches it: the module is compiled first, and only a
  module that compiles runs the statements of lines 24--37.
\<close>

definition dilute_substitution ::
  "('l, 'p) analyzer \<Rightarrow> ('l, 'p) Structure list \<Rightarrow> string list
     \<Rightarrow> error + ('l, 'p) Structure list" where
  "dilute_substitution sga structures element_dict =
     (case indentation [] dilute_py of
        Inl e \<Rightarrow> Inl e
      | Inr u \<Rightarrow> structure_loop sga element_dict structures [])"

section \<open>Example inputs\<close>

text \<open>Three sites on a unit lattice, positions numbered, no properties.\<close>

definition mk_site :: "string \<Rightarrow> nat \<Rightarrow> nat site" where
  "mk_site e c = \<lparr>element = e, coords = c, properties = []\<rparr>"

definition abf_structure :: "(unit, nat) Structure" where
  "abf_structure = \<lparr>lattice = (), sites = [mk_site ''Na'' 0, mk_site ''Cl'' 1, mk_site ''K'' 2]\<rparr>"

definition abf_dataset :: dataset where
  "abf_dataset = \<lparr>wyckoffs = [''a'', ''b'', ''f''], equivalent_atoms = [0, 1, 2]\<rparr>"

definition abf_analyzer :: "(unit, nat) analyzer" where
  "abf_analyzer s = Inr abf_dataset"

text \<open>An analysis that looks at the chemistry: it labels every site by its own element and
  puts every site in a class of its own.\<close>

definition element_analyzer :: "(unit, nat) analyzer" where
  "element_analyzer s =
     Inr \<lparr>wyckoffs = species s, equivalent_atoms = [0..<length (sites s)]\<rparr>"

text \<open>Wyckoff letters a, b, b on three sites.\<close>

definition abb_analyzer :: "(unit, nat) analyzer" where
  "abb_analyzer s = Inr \<lparr>wyckoffs = [''a'', ''b'', ''b''], equivalent_atoms = [0, 1, 1]\<rparr>"

definition lif_structure :: "(unit, nat) Structure" where
  "lif_structure = \<lparr>lattice = (), sites = [mk_site ''Li'' 0, mk_site ''F'' 1, mk_site ''Li'' 2]\<rparr>"

definition empty_structure :: "(unit, nat) Structure" where
  "empty_structure = \<lparr>lattice = (), sites = []\<rparr>"

text \<open>Four Na sites in three equivalence classes (sites 1 and 2 are equivalent).\<close>

definition na_structure :: "(unit, nat) Structure" where
  "na_structure = \<lparr>lattice = (), sites = [mk_site ''Na'' 0, mk_site ''Na'' 1, mk_site ''Na'' 2, mk_site ''Na'' 3]\<rparr>"

definition na_dataset :: dataset where
  "na_dataset = \<lparr>wyckoffs = [''a'', ''b'', ''b'', ''c''], equivalent_atoms = [0, 1, 1, 3]\<rparr>"

definition na_analyzer :: "(unit, nat) analyzer" where
  "na_analyzer s = Inr na_dataset"

text \<open>The letters the symmetry analysis names Wyckoff positions with: a space group has at
  most 27 of them, lettered a to z and then A.\<close>

definition wyckoff_letters :: "label list" where
  "wyckoff_letters =
     [''a'', ''b'', ''c'', ''d'', ''e'', ''f'', ''g'', ''h'', ''i'', ''j'', ''k'', ''l'', ''m'',
      ''n'', ''o'', ''p'', ''q'', ''r'', ''s'', ''t'', ''u'', ''v'', ''w'', ''x'', ''y'', ''z'',
      ''A'']"

text \<open>The rock-salt template, placeholder H on the first site and He on the second; four
  Fe sites on four Wyckoff positions.\<close>

definition rocksalt_template :: "(unit, nat) Structure" where
  "rocksalt_template = \<lparr>lattice = (), sites = [mk_site ''H'' 0, mk_site ''He'' 1]\<rparr>"

definition abcd_structure :: "(unit, nat) Structure" where
  "abcd_structure =
     \<lparr>lattice = (),
      sites = [mk_site ''Fe'' 0, mk_site ''Fe'' 1, mk_site ''Fe'' 2, mk_site ''Fe'' 3]\<rparr>"

definition abcd_analyzer :: "(unit, nat) analyzer" where
  "abcd_analyzer s =
     Inr \<lparr>wyckoffs = [''a'', ''b'', ''c'', ''d''], equivalent_atoms = [0, 1, 2, 3]\<rparr>"

section \<open>Properties of the sublattice modeler\<close>

lemma site_loop_eq:
  "site_loop t xs (sl, n) =
     (sl @ map (\<lambda>i. [(''sublattice_sites'', i)]) xs,
      if xs = [] then n else Some (sorted_set t))"
  by (induction xs arbitrary: sl n) auto

lemma sorted_set_eq: "sorted_set xs = sorted_list_of_set (set xs)"
  by (simp add: sorted_set_def sorted_list_of_set_sort_remdups)

lemma map_of_dummy: "x \<in> set xs \<Longrightarrow> map_of (map (\<lambda>y. (f y, v)) xs) (f x) = Some v"
  by (induction xs) auto

lemma normalized_eq:
  "normalized s = s\<lparr>sites := map (\<lambda>st. st\<lparr>element := ''H''\<rparr>) (sites s)\<rparr>"
proof -
  have "map (\<lambda>st. case map_of (map (\<lambda>sp. (sp, ''H'')) (map element (sites s))) (element st) of
                     Some e \<Rightarrow> st\<lparr>element := e\<rparr> | None \<Rightarrow> st) (sites s)
        = map (\<lambda>st. st\<lparr>element := ''H''\<rparr>) (sites s)"
    by (rule map_cong) (simp_all add: map_of_dummy comp_def)
  then show ?thesis
    by (simp add: normalized_def replace_species_def species_def)
qed

lemma gsi_fst: "fst (get_sublattice_information sga s eq) = normalized s"
  by (simp add: get_sublattice_information_def Let_def
           split: sum.splits prod.splits option.splits)

lemma gsi_snd:
  "snd (get_sublattice_information sga s eq) =
     (case sga (normalized s) of
        Inl e \<Rightarrow> Inl e
      | Inr ds \<Rightarrow>
          (let t = (case eq of
                      Some m \<Rightarrow> map (\<lambda>i. case m i of Some t \<Rightarrow> t | None \<Rightarrow> i) (wyckoffs ds)
                    | None \<Rightarrow> wyckoffs ds)
           in if t = [] then Inl UnboundLocalError
              else Inr (map (\<lambda>i. [(''sublattice_sites'', i)]) t, sorted_set t)))"
  by (simp add: get_sublattice_information_def Let_def site_loop_eq
           split: sum.splits option.splits)

lemma normalized_cong:
  assumes "lattice s1 = lattice s2"
    and "map coords (sites s1) = map coords (sites s2)"
    and "map properties (sites s1) = map properties (sites s2)"
  shows "normalized s1 = normalized s2"
proof -
  let ?h = "\<lambda>st :: 'b site. st\<lparr>element := ''H''\<rparr>"
  have len: "length (sites s1) = length (sites s2)"
    using assms(2) by (metis length_map)
  have "map ?h (sites s1) = map ?h (sites s2)"
  proof (rule nth_equalityI)
    show "length (map ?h (sites s1)) = length (map ?h (sites s2))"
      using len by simp
  next
    fix i assume "i < length (map ?h (sites s1))"
    then have i: "i < length (sites s1)" "i < length (sites s2)"
      using len by simp_all
    have c: "coords (sites s1 ! i) = coords (sites s2 ! i)"
      using assms(2) i by (metis nth_map)
    have p: "properties (sites s1 ! i) = properties (sites s2 ! i)"
      using assms(3) i by (metis nth_map)
    show "map ?h (sites s1) ! i = map ?h (sites s2) ! i"
      using i c p by (simp add: site.equality)
  qed
  then show ?thesis
    using assms(1) by (simp add: normalized_eq Structure.equality)
qed

text \<open>
  Claim C5.  When the symmetry analysis of the normalised structure yields a non-empty list
  of Wyckoff letters and an equivalence map is supplied, every letter is looked up in the
  map once: a letter the map holds is replaced by the map's target, any other letter stays.
  \<^verbatim>\<open>site_list\<close> carries these labels site by site and \<^verbatim>\<open>subl_model_name\<close> is the ascending list
  of the distinct labels.
\<close>

theorem equivalence_map_applied_labelwise:
  assumes "sga (normalized s) = Inr ds" and "wyckoffs ds \<noteq> []"
  shows "snd (get_sublattice_information sga s (Some m)) =
         Inr (map (\<lambda>w. [(''sublattice_sites'', case m w of None \<Rightarrow> w | Some t \<Rightarrow> t)])
                (wyckoffs ds),
              sorted_list_of_set
                (set (map (\<lambda>w. case m w of None \<Rightarrow> w | Some t \<Rightarrow> t) (wyckoffs ds))))"
  using assms by (simp add: gsi_snd sorted_set_eq comp_def cong: option.case_cong)

text \<open>The scenario of the specification: letters a, b, f with the map b to f give the two
  sublattices a and f.\<close>

theorem equivalence_map_applied_labelwise_witness:
  "abf_analyzer (normalized abf_structure) = Inr abf_dataset \<and> wyckoffs abf_dataset \<noteq> [] \<and>
   snd (get_sublattice_information abf_analyzer abf_structure (Some [''b'' \<mapsto> ''f''])) =
     Inr ([[(''sublattice_sites'', ''a'')], [(''sublattice_sites'', ''f'')],
           [(''sublattice_sites'', ''f'')]],
          [''a'', ''f''])"
proof -
  have h1: "abf_analyzer (normalized abf_structure) = Inr abf_dataset"
    by (simp add: abf_analyzer_def)
  have h2: "wyckoffs abf_dataset \<noteq> []"
    by (simp add: abf_dataset_def)
  show ?thesis
    using h1 h2 equivalence_map_applied_labelwise
            [of abf_analyzer abf_structure abf_dataset "[''b'' \<mapsto> ''f'']"]
    by (simp add: abf_dataset_def sorted_list_of_set_sort_remdups)
qed

text \<open>
  Claim C10.  \<^verbatim>\<open>subl_model_name\<close> is bound only by the loop body.  When the analysis yields no
  Wyckoff letter at all the call ends in \<^verbatim>\<open>UnboundLocalError\<close>; when it yields at least one,
  the call returns a pair.
\<close>

theorem sublattice_names_unbound_without_sites:
  assumes "sga (normalized s) = Inr ds"
  shows "(wyckoffs ds = [] \<longrightarrow>
            snd (get_sublattice_information sga s eq) = Inl UnboundLocalError) \<and>
         (wyckoffs ds \<noteq> [] \<longrightarrow>
            (\<exists>site_list names.
               snd (get_sublattice_information sga s eq) = Inr (site_list, names)))"
  using assms by (cases eq) (simp_all add: gsi_snd Let_def)

theorem sublattice_names_unbound_without_sites_witness:
  "snd (get_sublattice_information element_analyzer empty_structure None)
     = Inl UnboundLocalError \<and>
   (\<exists>site_list names.
      snd (get_sublattice_information abf_analyzer abf_structure None)
        = Inr (site_list, names))"
proof -
  have e: "element_analyzer (normalized empty_structure)
             = Inr \<lparr>wyckoffs = [], equivalent_atoms = []\<rparr>"
    by (simp add: element_analyzer_def normalized_eq empty_structure_def species_def)
  have a: "abf_analyzer (normalized abf_structure) = Inr abf_dataset"
    by (simp add: abf_analyzer_def)
  show ?thesis
    using e a
      sublattice_names_unbound_without_sites
        [of element_analyzer empty_structure "\<lparr>wyckoffs = [], equivalent_atoms = []\<rparr>" None]
      sublattice_names_unbound_without_sites
        [of abf_analyzer abf_structure abf_dataset None]
    by (simp add: abf_dataset_def)
qed

text \<open>
  Claim C9.  Two structures that agree on the lattice and, site by site, on positions and
  property bags, and so differ in their species at most, receive the same answer from
  \<^verbatim>\<open>get_sublattice_information\<close>, whatever the symmetry analysis and the equivalence map are:
  the analysis is run on the same all-\<^verbatim>\<open>"H"\<close> structure in both calls.
\<close>

theorem sublattice_information_ignores_species:
  assumes "lattice s1 = lattice s2"
    and "map coords (sites s1) = map coords (sites s2)"
    and "map properties (sites s1) = map properties (sites s2)"
  shows "snd (get_sublattice_information sga s1 eq) = snd (get_sublattice_information sga s2 eq)"
  using normalized_cong [OF assms] by (simp add: gsi_snd)

text \<open>Even an analysis that reads nothing but the species answers alike for Na-Cl-K and
  Li-F-Li on the same positions.\<close>

theorem sublattice_information_ignores_species_witness:
  "lattice abf_structure = lattice lif_structure \<and>
   map coords (sites abf_structure) = map coords (sites lif_structure) \<and>
   map properties (sites abf_structure) = map properties (sites lif_structure) \<and>
   species abf_structure \<noteq> species lif_structure \<and>
   snd (get_sublattice_information element_analyzer abf_structure None) =
     snd (get_sublattice_information element_analyzer lif_structure None)"
proof -
  have h1: "lattice abf_structure = lattice lif_structure"
    by simp
  have h2: "map coords (sites abf_structure) = map coords (sites lif_structure)"
    by (simp add: abf_structure_def lif_structure_def mk_site_def)
  have h3: "map properties (sites abf_structure) = map properties (sites lif_structure)"
    by (simp add: abf_structure_def lif_structure_def mk_site_def)
  have h4: "species abf_structure \<noteq> species lif_structure"
    by (simp add: abf_structure_def lif_structure_def mk_site_def species_def)
  show ?thesis
    using h1 h2 h3 h4 sublattice_information_ignores_species [OF h1 h2 h3]
    by simp
qed

text \<open>
  Claim C2.  The call rewrites the structure object it is given: after
  \<^verbatim>\<open>get_sublattice_information\<close> on the Na-Cl-K structure the caller's object holds H on every
  site and is no longer the structure that was passed in.
\<close>

theorem sublattice_information_overwrites_argument:
  "species (fst (get_sublattice_information abf_analyzer abf_structure None))
     = [''H'', ''H'', ''H''] \<and>
   species abf_structure = [''Na'', ''Cl'', ''K''] \<and>
   fst (get_sublattice_information abf_analyzer abf_structure None) \<noteq> abf_structure"
proof -
  have a: "species (fst (get_sublattice_information abf_analyzer abf_structure None))
             = [''H'', ''H'', ''H'']"
    by (simp add: gsi_fst normalized_eq abf_structure_def mk_site_def species_def)
  have b: "species abf_structure = [''Na'', ''Cl'', ''K'']"
    by (simp add: abf_structure_def mk_site_def species_def)
  from a b show ?thesis by auto
qed

section \<open>Properties of the dilute substitution generator\<close>

lemma set_element_twice:
  "i < length (sites d) \<Longrightarrow> set_element (set_element d i j0) i j = set_element d i j"
  by (simp add: set_element_def)

lemma candidate_loop_eq:
  "i < length (sites d) \<Longrightarrow>
   snd (candidate_loop i old cands (d, acc)) =
     acc @ map (set_element d i) (filter (\<lambda>j. old \<noteq> j) cands)"
proof (induction cands arbitrary: d acc)
  case Nil
  then show ?case by simp
next
  case (Cons j cands)
  show ?case
  proof (cases "old = j")
    case True
    then show ?thesis using Cons by simp
  next
    case False
    have len: "i < length (sites (set_element d i j))"
      using Cons.prems by (simp add: set_element_def)
    have "map (set_element (set_element d i j) i) (filter (\<lambda>j. old \<noteq> j) cands)
          = map (set_element d i) (filter (\<lambda>j. old \<noteq> j) cands)"
      using Cons.prems by (simp add: set_element_twice)
    then show ?thesis
      using False Cons.IH [OF len] by (simp add: Let_def)
  qed
qed

lemma representative_loop_eq:
  "\<forall>i\<in>set num. i < length (sites s) \<Longrightarrow>
   representative_loop s cands num acc =
     Inr (acc @ concat (map (\<lambda>i. map (set_element s i)
                                  (filter (\<lambda>j. element (sites s ! i) \<noteq> j) cands)) num))"
  by (induction num arbitrary: acc) (simp_all add: Let_def candidate_loop_eq)

lemma Counter_fold_keys:
  "distinct (map fst d) \<Longrightarrow>
   distinct (map fst (foldl (\<lambda>d x. case map_of d x of
                     None \<Rightarrow> AList.update x (1::nat) d
                   | Some n \<Rightarrow> AList.update x (n + 1) d) d xs)) \<and>
   set (map fst (foldl (\<lambda>d x. case map_of d x of
                     None \<Rightarrow> AList.update x (1::nat) d
                   | Some n \<Rightarrow> AList.update x (n + 1) d) d xs)) = set (map fst d) \<union> set xs"
proof (induction xs arbitrary: d)
  case Nil
  then show ?case by simp
next
  case (Cons x xs)
  let ?d' = "case map_of d x of None \<Rightarrow> AList.update x (1::nat) d | Some n \<Rightarrow> AList.update x (n + 1) d"
  have d: "distinct (map fst ?d')"
    using Cons.prems by (simp add: distinct_update split: option.splits)
  have s: "set (map fst ?d') = insert x (set (map fst d))"
    by (auto simp: dom_update split: option.splits)
  show ?case using Cons.IH [OF d] s by simp
qed

lemma keys_Counter: "distinct (keys (Counter xs))" "set (keys (Counter xs)) = set xs"
  using Counter_fold_keys [of "[]" xs] by (simp_all add: keys_def Counter_def)

lemma length_keys_Counter: "length (keys (Counter xs)) = card (set xs)"
  using keys_Counter [of xs] by (metis distinct_card)

lemma length_filter_neq: "length (filter (\<lambda>j. e \<noteq> j) cands) = length cands - count_list cands e"
  by (induction cands) (auto simp: Suc_diff_le count_le_length)

lemma length_concat_le:
  "length (concat (map (\<lambda>i. map (f i) (filter (P i) cands)) num)) \<le> length num * length cands"
proof (induction num)
  case Nil then show ?case by simp
next
  case (Cons i num)
  show ?case using Cons by (simp add: add_mono)
qed

lemma length_concat_eq:
  "\<forall>i\<in>set num. length (filter (P i) cands) = n \<Longrightarrow>
   length (concat (map (\<lambda>i. map (f i) (filter (P i) cands)) num)) = length num * n"
  by (induction num) simp_all

lemma structure_loop_Cons:
  assumes "sga strs = Inr ds" and "\<forall>i\<in>set (equivalent_atoms ds). i < length (sites strs)"
  shows "structure_loop sga cands (strs # rest) acc =
         structure_loop sga cands rest
           (acc @ concat (map (\<lambda>i. map (set_element strs i)
                                     (filter (\<lambda>j. element (sites strs ! i) \<noteq> j) cands))
                            (keys (Counter (equivalent_atoms ds)))))"
  using assms by (simp add: Let_def representative_loop_eq keys_Counter)

lemma structure_loop_per:
  assumes "\<forall>strs\<in>set structures. \<exists>ds. sga strs = Inr ds \<and>
             (\<forall>i\<in>set (equivalent_atoms ds). i < length (sites strs))"
  shows "\<exists>per. structure_loop sga cands structures acc = Inr (acc @ concat per) \<and>
           length per = length structures \<and>
           (\<forall>k<length structures. \<forall>ds. sga (structures ! k) = Inr ds \<longrightarrow>
              per ! k = concat (map (\<lambda>i. map (set_element (structures ! k) i)
                                     (filter (\<lambda>j. element (sites (structures ! k) ! i) \<noteq> j) cands))
                            (keys (Counter (equivalent_atoms ds)))))"
  using assms
proof (induction structures arbitrary: acc)
  case Nil
  then show ?case by simp
next
  case (Cons strs rest)
  from Cons.prems obtain ds where ds: "sga strs = Inr ds"
    "\<forall>i\<in>set (equivalent_atoms ds). i < length (sites strs)" by auto
  let ?e = "concat (map (\<lambda>i. map (set_element strs i)
                                     (filter (\<lambda>j. element (sites strs ! i) \<noteq> j) cands))
                            (keys (Counter (equivalent_atoms ds))))"
  from Cons.prems have rest: "\<forall>strs\<in>set rest. \<exists>ds. sga strs = Inr ds \<and>
             (\<forall>i\<in>set (equivalent_atoms ds). i < length (sites strs))" by simp
  from Cons.IH [OF rest, of "acc @ ?e"] obtain per where per:
    "structure_loop sga cands rest (acc @ ?e) = Inr ((acc @ ?e) @ concat per)"
    "length per = length rest"
    "\<forall>k<length rest. \<forall>ds. sga (rest ! k) = Inr ds \<longrightarrow>
              per ! k = concat (map (\<lambda>i. map (set_element (rest ! k) i)
                                     (filter (\<lambda>j. element (sites (rest ! k) ! i) \<noteq> j) cands))
                            (keys (Counter (equivalent_atoms ds))))" by blast
  have 1: "structure_loop sga cands (strs # rest) acc = Inr (acc @ concat (?e # per))"
    using structure_loop_Cons [of sga strs ds cands rest acc] ds per(1) by simp
  have 2: "length (?e # per) = length (strs # rest)" using per(2) by simp
  have 3: "\<forall>k<length (strs # rest). \<forall>ds'. sga ((strs # rest) ! k) = Inr ds' \<longrightarrow>
              (?e # per) ! k = concat (map (\<lambda>i. map (set_element ((strs # rest) ! k) i)
                                     (filter (\<lambda>j. element (sites ((strs # rest) ! k) ! i) \<noteq> j) cands))
                            (keys (Counter (equivalent_atoms ds'))))"
  proof (intro allI impI)
    fix k ds' assume k: "k < length (strs # rest)" and s: "sga ((strs # rest) ! k) = Inr ds'"
    show "(?e # per) ! k = concat (map (\<lambda>i. map (set_element ((strs # rest) ! k) i)
                                     (filter (\<lambda>j. element (sites ((strs # rest) ! k) ! i) \<noteq> j) cands))
                            (keys (Counter (equivalent_atoms ds'))))"
    proof (cases k)
      case 0
      then show ?thesis using s ds(1) by simp
    next
      case (Suc k')
      then show ?thesis using k s per(3) by simp
    qed
  qed
  from 1 2 3 show ?case by blast
qed

lemma representative_loop_Inr:
  "representative_loop s cands num acc = Inr outs \<Longrightarrow> \<forall>i\<in>set num. i < length (sites s)"
  by (induction num arbitrary: acc) (auto simp: Let_def split: if_splits)

lemma set_element_neq:
  assumes "i < length (sites s)" and "j \<noteq> element (sites s ! i)"
  shows "set_element s i j \<noteq> s"
proof
  assume "set_element s i j = s"
  then have "sites (set_element s i j) ! i = sites s ! i" by simp
  then have "element ((sites s ! i)\<lparr>element := j\<rparr>) = element (sites s ! i)"
    using assms(1) by (simp add: set_element_def)
  then show False using assms(2) by simp
qed

lemma structure_loop_sources:
  assumes "structure_loop sga cands structures acc = Inr outs" and "out \<in> set outs"
  shows "out \<in> set acc \<or>
         (\<exists>strs\<in>set structures. \<exists>ds i j. sga strs = Inr ds \<and> i \<in> set (equivalent_atoms ds) \<and>
            i < length (sites strs) \<and> j \<in> set cands \<and> j \<noteq> element (sites strs ! i) \<and>
            out = set_element strs i j)"
  using assms
proof (induction structures arbitrary: acc)
  case Nil
  then show ?case by simp
next
  case (Cons strs rest)
  from Cons.prems(1) obtain ds where ds: "sga strs = Inr ds"
    by (cases "sga strs") simp_all
  let ?num = "keys (Counter (equivalent_atoms ds))"
  from Cons.prems(1) ds obtain mid where mid: "representative_loop strs cands ?num acc = Inr mid"
    and rest: "structure_loop sga cands rest mid = Inr outs"
    by (cases "representative_loop strs cands ?num acc") (simp_all add: Let_def)
  have rng: "\<forall>i\<in>set ?num. i < length (sites strs)"
    using representative_loop_Inr [OF mid] .
  have mid_eq: "mid = acc @ concat (map (\<lambda>i. map (set_element strs i)
                                  (filter (\<lambda>j. element (sites strs ! i) \<noteq> j) cands)) ?num)"
    using representative_loop_eq [OF rng, of cands acc] mid by simp
  from Cons.IH [OF rest Cons.prems(2)] show ?case
  proof
    assume "out \<in> set mid"
    then consider "out \<in> set acc"
      | i j where "i \<in> set ?num" "j \<in> set cands" "element (sites strs ! i) \<noteq> j" "out = set_element strs i j"
      unfolding mid_eq by auto
    then show ?thesis
    proof cases
      case 1
      then show ?thesis by simp
    next
      case 2
      have "i \<in> set (equivalent_atoms ds)" using 2(1) by (simp add: keys_Counter)
      moreover have "i < length (sites strs)" using 2(1) rng by blast
      ultimately show ?thesis using ds 2 by auto
    qed
  next
    assume "\<exists>strs\<in>set rest. \<exists>ds i j. sga strs = Inr ds \<and> i \<in> set (equivalent_atoms ds) \<and>
            i < length (sites strs) \<and> j \<in> set cands \<and> j \<noteq> element (sites strs ! i) \<and>
            out = set_element strs i j"
    then show ?thesis by auto
  qed
qed

text \<open>
  What the statements of lines 24--37 compute.  Every structure they emit comes from one
  input structure \<open>strs\<close>, one equivalent-atom index \<open>i\<close> of that structure's symmetry dataset
  and one candidate \<open>j\<close> that differs from the element on site \<open>i\<close>: it is \<open>strs\<close> with the
  element of site \<open>i\<close> replaced by \<open>j\<close> and nothing else changed, and it is not \<open>strs\<close>
  itself.
\<close>

lemma statements_differ_in_one_site:
  assumes "structure_loop sga cands structures [] = Inr outs" and "out \<in> set outs"
  shows "\<exists>strs\<in>set structures. \<exists>ds i j.
           sga strs = Inr ds \<and> i \<in> set (equivalent_atoms ds) \<and> i < length (sites strs) \<and>
           j \<in> set cands \<and> j \<noteq> element (sites strs ! i) \<and>
           out = strs\<lparr>sites := (sites strs)[i := (sites strs ! i)\<lparr>element := j\<rparr>]\<rparr> \<and>
           out \<noteq> strs"
proof -
  from structure_loop_sources [of sga cands structures "[]" outs out] assms
  obtain strs ds i j where h: "strs \<in> set structures" "sga strs = Inr ds"
    "i \<in> set (equivalent_atoms ds)" "i < length (sites strs)" "j \<in> set cands"
    "j \<noteq> element (sites strs ! i)" "out = set_element strs i j"
    by auto
  have "out \<noteq> strs" using set_element_neq [OF h(4) h(6)] h(7) by simp
  with h show ?thesis unfolding set_element_def by blast
qed

text \<open>
  For an input structure with \<open>m\<close> distinct equivalent-atom indices, all of them existing
  sites, and \<open>c\<close> candidates, the statements emit at most \<open>m * c\<close> structures, and exactly
  \<open>m * (c - 1)\<close> when the element of every representative site occurs exactly once among
  the candidates.
\<close>

lemma statements_count:
  assumes ds: "sga strs = Inr ds"
    and rng: "\<forall>i\<in>set (equivalent_atoms ds). i < length (sites strs)"
  shows "\<exists>outs. structure_loop sga cands [strs] [] = Inr outs \<and>
           length outs \<le> card (set (equivalent_atoms ds)) * length cands \<and>
           ((\<forall>i\<in>set (equivalent_atoms ds). count_list cands (element (sites strs ! i)) = 1) \<longrightarrow>
            length outs = card (set (equivalent_atoms ds)) * (length cands - 1))"
proof -
  let ?num = "keys (Counter (equivalent_atoms ds))"
  let ?outs = "concat (map (\<lambda>i. map (set_element strs i)
                  (filter (\<lambda>j. element (sites strs ! i) \<noteq> j) cands)) ?num)"
  have single: "structure_loop sga cands [strs] [] = Inr ?outs"
    using structure_loop_Cons [of sga strs ds cands "[]" "[]"] ds rng by simp
  have le: "length ?outs \<le> card (set (equivalent_atoms ds)) * length cands"
    using length_concat_le [of "set_element strs" "\<lambda>i j. element (sites strs ! i) \<noteq> j" cands ?num]
    by (simp add: length_keys_Counter)
  have eq: "length ?outs = card (set (equivalent_atoms ds)) * (length cands - 1)"
    if once: "\<forall>i\<in>set (equivalent_atoms ds). count_list cands (element (sites strs ! i)) = 1"
  proof -
    have "\<forall>i\<in>set ?num. length (filter (\<lambda>j. element (sites strs ! i) \<noteq> j) cands) = length cands - 1"
      using once by (simp add: keys_Counter length_filter_neq)
    from length_concat_eq [OF this, of "set_element strs"] show ?thesis
      by (simp add: length_keys_Counter)
  qed
  from single le eq show ?thesis by blast
qed

lemma columns_spaces: "columns (replicate n (CHR '' '')) = (n, n)"
proof -
  have "\<And>c a. foldl (\<lambda>(col, altcol) c.
              if c = CHR 0x09 then ((col div 8 + 1) * 8, altcol + 1)
              else (col + 1, altcol + 1)) (c, a) (replicate n (CHR '' '')) = (c + n, a + n)"
    by (induction n) simp_all
  then show ?thesis by (simp add: columns_def)
qed

lemma columns_tab: "columns [CHR 0x09] = (8, 1)"
  by (simp add: columns_def)

lemma dilute_py_indentation: "indentation [] dilute_py = Inl IndentationError"
proof -
  have margin: "indent_line [] [] = Inr []"
    by (simp add: indent_line_def columns_def top_def)
  have nine: "\<And>rest n. indentation [] (replicate n [] @ rest) = indentation [] rest"
  proof -
    fix rest :: "string list" and n
    show "indentation [] (replicate n [] @ rest) = indentation [] rest"
      by (induction n) (simp_all add: margin)
  qed
  have docstring: "indent_line [] [CHR 0x09] = Inr [(8, 1)]"
    by (simp add: indent_line_def columns_tab top_def)
  have body: "indent_line [(8, 1)] (replicate 4 (CHR '' '')) = Inl IndentationError"
    by (simp add: indent_line_def columns_spaces top_def)
  show ?thesis
    unfolding dilute_py_def nine
    using margin docstring body by (simp del: replicate_Suc replicate.simps)
qed


text \<open>
  Claim C7.  The scenario of the specification: one structure with three classes of
  equivalent sites, candidates Na, K, Mg, Na on every representative site.  The statements
  of lines 24--37 would emit \<open>3 * (3 - 1) = 6\<close> structures, the count of the claim; the call
  emits none, it ends in \<^verbatim>\<open>IndentationError\<close>.
\<close>

theorem dilute_call_returns_no_structures:
  "dilute_substitution na_analyzer [na_structure] [''Na'', ''K'', ''Mg''] =
     Inl IndentationError \<and>
   card (set (equivalent_atoms na_dataset)) = 3 \<and>
   (\<exists>outs. structure_loop na_analyzer [''Na'', ''K'', ''Mg''] [na_structure] [] = Inr outs \<and>
           length outs = 6)"
proof -
  have a: "na_analyzer na_structure = Inr na_dataset" by (simp add: na_analyzer_def)
  have rng: "\<forall>i\<in>set (equivalent_atoms na_dataset). i < length (sites na_structure)"
    by (simp add: na_dataset_def na_structure_def)
  have once: "\<forall>i\<in>set (equivalent_atoms na_dataset).
       count_list [''Na'', ''K'', ''Mg''] (element (sites na_structure ! i)) = 1"
    by (simp add: na_dataset_def na_structure_def mk_site_def)
  have c: "card (set (equivalent_atoms na_dataset)) = 3"
    by (simp add: na_dataset_def)
  from statements_count [of na_analyzer na_structure na_dataset "[''Na'', ''K'', ''Mg'']"]
    a rng once c
  have "\<exists>outs. structure_loop na_analyzer [''Na'', ''K'', ''Mg''] [na_structure] [] = Inr outs \<and>
           length outs = 6"
    by auto
  moreover have "dilute_substitution na_analyzer [na_structure] [''Na'', ''K'', ''Mg''] =
     Inl IndentationError"
    by (simp add: dilute_substitution_def dilute_py_indentation)
  ultimately show ?thesis using c by blast
qed

section \<open>Properties of the template builder\<close>

lemma length_element_symbols: "length element_symbols = 118"
  by (simp add: element_symbols_def)

lemma wyckoff_not_symbol: "l \<in> set wyckoff_letters \<Longrightarrow> l \<notin> set element_symbols"
  unfolding wyckoff_letters_def element_symbols_def by auto

lemma attach_loop_fold:
  "\<forall>i\<in>set ixs. i < length labels \<Longrightarrow>
   attach_loop (map (\<lambda>l. [(''sublattice_sites'', l)]) labels) ixs ss =
     Inr (fold (\<lambda>i ss. ss[i := (ss ! i)\<lparr>element := labels ! i,
                 properties := dict_update (properties (ss ! i))
                                 [(''sublattice_sites'', labels ! i)]\<rparr>]) ixs ss)"
  by (induction ixs arbitrary: ss) simp_all

lemma fold_update_upt:
  "n \<le> length ss \<Longrightarrow>
   length (fold (\<lambda>i ss. ss[i := g i (ss ! i)]) [0..<n] ss) = length ss \<and>
   (\<forall>k<length ss. fold (\<lambda>i ss. ss[i := g i (ss ! i)]) [0..<n] ss ! k =
        (if k < n then g k (ss ! k) else ss ! k))"
proof (induction n)
  case 0
  then show ?case by simp
next
  case (Suc n)
  then have IH: "length (fold (\<lambda>i ss. ss[i := g i (ss ! i)]) [0..<n] ss) = length ss"
    "\<forall>k<length ss. fold (\<lambda>i ss. ss[i := g i (ss ! i)]) [0..<n] ss ! k =
        (if k < n then g k (ss ! k) else ss ! k)" by simp_all
  from Suc.prems have n: "n < length ss" by simp
  show ?case using IH n by (auto simp: nth_list_update less_Suc_eq)
qed

lemma placeholder_loop_fold:
  "\<forall>i\<in>set ixs. i < length element_symbols \<Longrightarrow>
   placeholder_loop ts ixs (ss, tc) =
     Inr (map (\<lambda>el. el\<lparr>element := fold (\<lambda>i e. if e = ts ! i then element_symbols ! i else e)
                                      ixs (element el)\<rparr>) ss,
          tc @ map (\<lambda>i. element_symbols ! i) ixs)"
proof (induction ixs arbitrary: ss tc)
  case Nil
  then show ?case by (simp add: map_idI)
next
  case (Cons i ixs)
  then have z: "Element_from_Z (i + 1) = Inr (element_symbols ! i)"
    by (simp add: Element_from_Z_def Suc_le_eq)
  have "(\<lambda>el. (if element el = ts ! i then el\<lparr>element := element_symbols ! i\<rparr> else el)
           \<lparr>element := fold (\<lambda>i e. if e = ts ! i then element_symbols ! i else e) ixs
              (element (if element el = ts ! i then el\<lparr>element := element_symbols ! i\<rparr> else el))\<rparr>)
        = (\<lambda>el. el\<lparr>element := fold (\<lambda>i e. if e = ts ! i then element_symbols ! i else e) ixs
              (if element el = ts ! i then element_symbols ! i else element el)\<rparr>)"
    by (rule ext) simp
  then show ?case using Cons z by (simp add: comp_def)
qed

lemma fold_step_fixed:
  "\<forall>i\<in>set ixs. e \<noteq> ts ! i \<Longrightarrow>
   fold (\<lambda>i e. if e = ts ! i then (p i :: string) else e) ixs e = e"
  by (induction ixs) simp_all

lemma fold_step_marker:
  assumes "k \<in> set ixs"
    and "\<forall>i\<in>set ixs. p k \<noteq> ts ! i"
    and "\<forall>i\<in>set ixs. i \<noteq> k \<longrightarrow> ts ! i \<noteq> ts ! k"
  shows "fold (\<lambda>i e. if e = ts ! i then (p i :: string) else e) ixs (ts ! k) = p k"
  using assms
proof (induction ixs)
  case Nil
  then show ?case by simp
next
  case (Cons i ixs)
  show ?case
  proof (cases "i = k")
    case True
    then show ?thesis using Cons.prems(2) by (simp add: fold_step_fixed)
  next
    case False
    then show ?thesis using Cons by auto
  qed
qed

lemma gsi_labels:
  assumes "snd (get_sublattice_information sga s eq) = Inr (site_list, names)"
  shows "\<exists>labels. labels \<noteq> [] \<and> site_list = map (\<lambda>l. [(''sublattice_sites'', l)]) labels \<and>
           names = sorted_set labels"
  using assms by (auto simp: gsi_snd Let_def split: sum.splits if_splits)

lemma sorted_set_props:
  "distinct (sorted_set xs)" "set (sorted_set xs) = set xs"
  by (simp_all add: sorted_set_def)

lemma get_templates_eq:
  assumes gsi: "snd (get_sublattice_information sga s eq) =
                  Inr (map (\<lambda>l. [(''sublattice_sites'', l)]) labels, names)"
    and len: "length (sites s) \<le> length labels"
    and nn: "length names \<le> length element_symbols"
  shows "snd (get_templates sga s eq) =
         Inr ((normalized s)\<lparr>sites :=
                 map (\<lambda>el. el\<lparr>element :=
                        fold (\<lambda>i e. if e = names ! i then element_symbols ! i else e)
                          [0..<length names] (element el)\<rparr>)
                   (fold (\<lambda>i ss. ss[i := (ss ! i)\<lparr>element := labels ! i,
                            properties := dict_update (properties (ss ! i))
                                            [(''sublattice_sites'', labels ! i)]\<rparr>])
                      [0..<length (sites s)] (sites (normalized s)))\<rparr>,
              map (\<lambda>i. element_symbols ! i) [0..<length names])"
proof -
  have pair: "get_sublattice_information sga s eq =
                (normalized s, Inr (map (\<lambda>l. [(''sublattice_sites'', l)]) labels, names))"
    using gsi gsi_fst [of sga s eq] by (metis prod.collapse)
  have ls: "length (sites (normalized s)) = length (sites s)"
    by (simp add: normalized_eq)
  have a: "attach_loop (map (\<lambda>l. [(''sublattice_sites'', l)]) labels) [0..<length (sites s)]
             (sites (normalized s)) =
           Inr (fold (\<lambda>i ss. ss[i := (ss ! i)\<lparr>element := labels ! i,
                            properties := dict_update (properties (ss ! i))
                                            [(''sublattice_sites'', labels ! i)]\<rparr>])
                      [0..<length (sites s)] (sites (normalized s)))"
    using len by (intro attach_loop_fold) simp
  have p: "\<And>ss. placeholder_loop names [0..<length names] (ss, []) =
     Inr (map (\<lambda>el. el\<lparr>element := fold (\<lambda>i e. if e = names ! i then element_symbols ! i else e)
                                      [0..<length names] (element el)\<rparr>) ss,
          [] @ map (\<lambda>i. element_symbols ! i) [0..<length names])"
    using nn by (intro placeholder_loop_fold) simp
  show ?thesis
    unfolding get_templates_def pair by (simp add: ls a p Let_def)
qed

text \<open>
  Where no sublattice name is an element symbol (the Wyckoff letters are not), the
  template is as intended.  Let the sublattice analysis return \<open>site_list\<close> and \<open>names\<close>, one
  entry of \<open>site_list\<close> per site.  Then \<^verbatim>\<open>get_templates\<close> returns a template configuration with
  one entry per name, entry \<open>i\<close> being the symbol of atomic number \<open>i + 1\<close>, and a template
  structure with the same number of sites in which every site carries the placeholder at
  the position of the site's own sublattice name.
\<close>

lemma templates_without_collision:
  assumes gsi: "snd (get_sublattice_information sga s eq) = Inr (site_list, names)"
    and len: "length site_list = length (sites s)"
    and wy: "set names \<subseteq> set wyckoff_letters"
  shows "\<exists>template_structure template_configuration.
           snd (get_templates sga s eq) = Inr (template_structure, template_configuration) \<and>
           length template_configuration = length names \<and>
           (\<forall>i<length names. Element_from_Z (i + 1) = Inr (template_configuration ! i)) \<and>
           length (sites template_structure) = length (sites s) \<and>
           (\<forall>k<length (sites s).
              element (sites template_structure ! k) \<in> set template_configuration \<and>
              (\<forall>i<length names. site_list ! k = [(''sublattice_sites'', names ! i)] \<longrightarrow>
                 element (sites template_structure ! k) = template_configuration ! i))"
proof -
  from gsi_labels [OF gsi] obtain labels where lab: "labels \<noteq> []"
    "site_list = map (\<lambda>l. [(''sublattice_sites'', l)]) labels" "names = sorted_set labels"
    by blast
  have dn: "distinct names" and sn: "set names = set labels"
    using lab(3) by (simp_all add: sorted_set_props)
  have "card (set names) \<le> card (set wyckoff_letters)"
    using wy by (intro card_mono) simp_all
  also have "\<dots> \<le> length wyckoff_letters" by (rule card_length)
  also have "\<dots> = 27" by (simp add: wyckoff_letters_def)
  finally have n27: "length names \<le> 27" using dn by (simp add: distinct_card)
  then have nn: "length names \<le> length element_symbols"
    by (simp add: length_element_symbols)
  have ll: "length labels = length (sites s)" using len lab(2) by simp
  let ?N = "length names"
  let ?step = "\<lambda>i e. if e = names ! i then element_symbols ! i else e"
  let ?upd = "\<lambda>i ss. ss[i := (ss ! i)\<lparr>element := labels ! i,
                            properties := dict_update (properties (ss ! i))
                                            [(''sublattice_sites'', labels ! i)]\<rparr>]"
  let ?att = "fold ?upd [0..<length (sites s)] (sites (normalized s))"
  let ?ts = "(normalized s)\<lparr>sites := map (\<lambda>el. el\<lparr>element := fold ?step [0..<?N] (element el)\<rparr>) ?att\<rparr>"
  let ?tc = "map (\<lambda>i. element_symbols ! i) [0..<?N]"
  have eq: "snd (get_templates sga s eq) = Inr (?ts, ?tc)"
    using get_templates_eq [of sga s eq labels names] gsi lab(2) ll nn by simp
  have ls: "length (sites (normalized s)) = length (sites s)"
    by (simp add: normalized_eq)
  from fold_update_upt [of "length (sites s)" "sites (normalized s)"
        "\<lambda>i x. x\<lparr>element := labels ! i,
                 properties := dict_update (properties x) [(''sublattice_sites'', labels ! i)]\<rparr>"]
  have att_len: "length ?att = length (sites s)"
    and att_nth: "\<forall>k<length (sites s). element (?att ! k) = labels ! k"
    using ls by simp_all
  have z: "\<forall>i<?N. Element_from_Z (i + 1) = Inr (?tc ! i)"
    using nn by (simp add: Element_from_Z_def Suc_le_eq)
  have nocoll: "\<And>i j. i < ?N \<Longrightarrow> j < ?N \<Longrightarrow> element_symbols ! j \<noteq> names ! i"
  proof -
    fix i j assume i: "i < ?N" and j: "j < ?N"
    have "names ! i \<in> set wyckoff_letters" using wy i by auto
    then have "names ! i \<notin> set element_symbols" by (rule wyckoff_not_symbol)
    moreover have "element_symbols ! j \<in> set element_symbols" using j nn by simp
    ultimately show "element_symbols ! j \<noteq> names ! i" by metis
  qed
  have own: "\<And>k i. k < length (sites s) \<Longrightarrow> i < ?N \<Longrightarrow> labels ! k = names ! i \<Longrightarrow>
               element (sites ?ts ! k) = ?tc ! i"
  proof -
    fix k i assume k: "k < length (sites s)" and i: "i < ?N" and e: "labels ! k = names ! i"
    have "fold ?step [0..<?N] (names ! i) = element_symbols ! i"
    proof (rule fold_step_marker)
      show "i \<in> set [0..<?N]" using i by simp
      show "\<forall>j\<in>set [0..<?N]. element_symbols ! i \<noteq> names ! j"
        using nocoll i by simp
      show "\<forall>j\<in>set [0..<?N]. j \<noteq> i \<longrightarrow> names ! j \<noteq> names ! i"
        using dn i by (simp add: nth_eq_iff_index_eq)
    qed
    then show "element (sites ?ts ! k) = ?tc ! i"
      using k i e att_len att_nth by simp
  qed
  have each: "\<forall>k<length (sites s).
              element (sites ?ts ! k) \<in> set ?tc \<and>
              (\<forall>i<?N. site_list ! k = [(''sublattice_sites'', names ! i)] \<longrightarrow>
                 element (sites ?ts ! k) = ?tc ! i)"
  proof (intro allI impI conjI)
    fix k assume k: "k < length (sites s)"
    have "labels ! k \<in> set names" using k ll sn by simp
    then obtain i where i: "i < ?N" "names ! i = labels ! k"
      by (auto simp: in_set_conv_nth)
    have "element (sites ?ts ! k) = ?tc ! i" using own [OF k i(1)] i(2) by simp
    moreover have "?tc ! i \<in> set ?tc" using i(1) by (intro nth_mem) simp
    ultimately show "element (sites ?ts ! k) \<in> set ?tc" by simp
  next
    fix k i assume k: "k < length (sites s)" and i: "i < ?N"
      and e: "site_list ! k = [(''sublattice_sites'', names ! i)]"
    have "labels ! k = names ! i" using e lab(2) k ll by simp
    then show "element (sites ?ts ! k) = ?tc ! i" using own [OF k i] by simp
  qed
  have "length ?tc = ?N" by simp
  moreover have "length (sites ?ts) = length (sites s)" using att_len by simp
  ultimately show ?thesis using eq z each by blast
qed

lemma abb_renamed:
  "snd (get_sublattice_information abb_analyzer abf_structure
          (Some [''a'' \<mapsto> ''A'', ''b'' \<mapsto> ''H''])) =
     Inr (map (\<lambda>l. [(''sublattice_sites'', l)]) [''A'', ''H'', ''H''], [''A'', ''H''])"
  by (simp add: gsi_snd abb_analyzer_def sorted_set_def)

text \<open>
  Claim C8.  Three sites with Wyckoff letters a, b, b and the equivalence map a to A, b to
  H: the sublattice names are A and H, the template configuration is H, He.  Site 0 lies
  on the first sublattice, A, whose placeholder is H; the template carries He on it, as on
  the two sites of the second sublattice.  Lines 73--78 write the placeholder H over the
  marker A of site 0 and, one step later, take that H for the marker of the second
  sublattice.
\<close>

theorem template_placeholder_taken_for_marker:
  "\<exists>template_structure.
     snd (get_sublattice_information abb_analyzer abf_structure
            (Some [''a'' \<mapsto> ''A'', ''b'' \<mapsto> ''H''])) =
       Inr ([[(''sublattice_sites'', ''A'')], [(''sublattice_sites'', ''H'')],
             [(''sublattice_sites'', ''H'')]], [''A'', ''H'']) \<and>
     snd (get_templates abb_analyzer abf_structure (Some [''a'' \<mapsto> ''A'', ''b'' \<mapsto> ''H''])) =
       Inr (template_structure, [''H'', ''He'']) \<and>
     species template_structure = [''He'', ''He'', ''He'']"
proof -
  have u2: "[0..<2] = [0, 1]" and u3: "[0..<3] = [0, 1, 2]" by (simp_all add: upt_rec)
  have len: "length (sites abf_structure) \<le> length [''A'', ''H'', ''H'']"
    by (simp add: abf_structure_def)
  have nn: "length [''A'', ''H''] \<le> length element_symbols"
    by (simp add: length_element_symbols)
  note e = get_templates_eq [OF abb_renamed len nn]
  have tc: "map (\<lambda>i. element_symbols ! i) [0..<length [''A'', ''H'']] = [''H'', ''He'']"
    by (simp add: u2 element_symbols_def)
  have "snd (get_sublattice_information abb_analyzer abf_structure
            (Some [''a'' \<mapsto> ''A'', ''b'' \<mapsto> ''H''])) =
       Inr ([[(''sublattice_sites'', ''A'')], [(''sublattice_sites'', ''H'')],
             [(''sublattice_sites'', ''H'')]], [''A'', ''H''])"
    using abb_renamed by simp
  then show ?thesis
    unfolding e tc
    by (simp add: u2 u3 species_def normalized_eq abf_structure_def mk_site_def
          element_symbols_def dict_update_def)
qed

section \<open>Properties of the endmember generator\<close>

lemma update_append: "k \<notin> fst ` set al \<Longrightarrow> AList.update k v al = al @ [(k, v)]"
  by (induction al) auto

lemma dict_update_distinct:
  "distinct (map fst kvs) \<Longrightarrow> fst ` set kvs \<inter> fst ` set d = {} \<Longrightarrow> dict_update d kvs = d @ kvs"
proof (induction kvs arbitrary: d)
  case Nil
  then show ?case by (simp add: dict_update_def)
next
  case (Cons kv kvs)
  obtain k v where kv: "kv = (k, v)" by (cases kv)
  have k: "k \<notin> fst ` set d" using Cons.prems(2) kv by auto
  have "dict_update d (kv # kvs) = dict_update (d @ [(k, v)]) kvs"
    using kv k by (simp add: dict_update_def update_append)
  also have "\<dots> = (d @ [(k, v)]) @ kvs"
    using Cons.prems kv by (intro Cons.IH) auto
  finally show ?case using kv by simp
qed

lemma dict_py_distinct: "distinct (map fst kvs) \<Longrightarrow> dict_py kvs = kvs"
  by (simp add: dict_py_def dict_update_distinct)

lemma those_map_Some:
  "\<forall>x\<in>set xs. f x \<noteq> None \<Longrightarrow> those (map f xs) = Some (map (\<lambda>x. the (f x)) xs)"
  by (induction xs) auto

lemma map_of_key: "k \<in> fst ` set al \<Longrightarrow> map_of al k \<noteq> None"
  by (simp add: map_of_eq_None_iff)

lemma step_concat:
  "concat (map (\<lambda>x. map (\<lambda>ys. x @ ys) (concat (map (\<lambda>y. map ((#) y) R) pool))) acc) =
   concat (map (\<lambda>x. map (\<lambda>ys. x @ ys) R) (concat (map (\<lambda>x. map (\<lambda>y. x @ [y]) pool) acc)))"
proof (induction acc)
  case Nil
  then show ?case by simp
next
  case (Cons a acc)
  have "map (\<lambda>ys. a @ ys) (concat (map (\<lambda>y. map ((#) y) R) pool)) =
        concat (map (\<lambda>x. map (\<lambda>ys. x @ ys) R) (map (\<lambda>y. a @ [y]) pool))"
    by (induction pool) simp_all
  then show ?case using Cons by simp
qed

lemma product_foldl:
  "foldl (\<lambda>result pool. concat (map (\<lambda>x. map (\<lambda>y. x @ [y]) pool) result)) acc pools =
   concat (map (\<lambda>x. map (\<lambda>ys. x @ ys) (product_lists pools)) acc)"
proof (induction pools arbitrary: acc)
  case Nil
  then show ?case by (induction acc) simp_all
next
  case (Cons pool pools)
  show ?case by (simp add: Cons.IH step_concat)
qed

lemma product_eq: "product pools = product_lists pools"
proof -
  have "(@) [] = (\<lambda>ys :: 'a list. ys)" by (rule ext) simp
  then show ?thesis by (simp add: product_def product_foldl)
qed

lemma mod_mult_div: "0 < d \<Longrightarrow> (x mod (d * b)) div d = (x div d) mod (b :: nat)"
proof -
  assume d: "0 < d"
  have "x mod (d * b) = d * (x div d mod b) + x mod d" by (rule mod_mult2_eq)
  then show ?thesis using d by simp
qed

lemma length_product_lists: "length (product_lists xss) = prod_list (map length xss)"
  by (induction xss) (simp_all add: length_concat comp_def sum_list_triv)

lemma product_lists_length_each: "c \<in> set (product_lists xss) \<Longrightarrow> length c = length xss"
  by (induction xss arbitrary: c) auto

lemma nth_concat_uniform:
  assumes "\<forall>x\<in>set xs. length (f x) = m" and "n < length xs * m"
  shows "concat (map f xs) ! n = f (xs ! (n div m)) ! (n mod m)"
  using assms
proof (induction xs arbitrary: n)
  case Nil
  then show ?case by simp
next
  case (Cons x xs)
  have m: "0 < m" using Cons.prems(2) by (cases m) simp_all
  show ?case
  proof (cases "n < m")
    case True
    then show ?thesis using Cons.prems by (simp add: nth_append)
  next
    case False
    then have ge: "m \<le> n" by simp
    have lt: "n - m < length xs * m" using Cons.prems(2) ge by simp
    have d: "n div m = Suc ((n - m) div m)" using ge m by (simp add: le_div_geq)
    have r: "n mod m = (n - m) mod m" using ge by (simp add: le_mod_geq)
    show ?thesis using Cons.IH [OF _ lt] Cons.prems(1) False d r by (simp add: nth_append)
  qed
qed

lemma product_lists_nth:
  "n < prod_list (map length xss) \<Longrightarrow> j < length xss \<Longrightarrow>
   product_lists xss ! n ! j =
     xss ! j ! ((n div prod_list (map length (drop (Suc j) xss))) mod length (xss ! j))"
proof (induction xss arbitrary: n j)
  case Nil
  then show ?case by simp
next
  case (Cons xs rest)
  let ?m = "prod_list (map length rest)"
  have n: "n < length xs * ?m" using Cons.prems(1) by simp
  have m: "0 < ?m" using n by (cases ?m) simp_all
  have row: "product_lists (xs # rest) ! n =
             xs ! (n div ?m) # product_lists rest ! (n mod ?m)"
  proof -
    have "concat (map (\<lambda>x. map ((#) x) (product_lists rest)) xs) ! n =
          map ((#) (xs ! (n div ?m))) (product_lists rest) ! (n mod ?m)"
      using n by (intro nth_concat_uniform) (simp_all add: length_product_lists)
    then show ?thesis using m by (simp add: length_product_lists)
  qed
  show ?case
  proof (cases j)
    case 0
    have "n div ?m < length xs" using n m by (simp add: less_mult_imp_div_less)
    then show ?thesis using row 0 by simp
  next
    case (Suc j')
    then have j': "j' < length rest" using Cons.prems(2) by simp
    let ?d = "prod_list (map length (drop (Suc j') rest))"
    let ?l = "length (rest ! j')"
    have split: "?m = prod_list (map length (take j' rest)) * (?l * ?d)"
    proof -
      have "rest = take j' rest @ rest ! j' # drop (Suc j') rest"
        using j' by (simp add: id_take_nth_drop)
      then have "?m = prod_list (map length (take j' rest @ rest ! j' # drop (Suc j') rest))"
        by simp
      then show ?thesis by (simp del: append_take_drop_id)
    qed
    have nm: "n mod ?m < ?m" using m by simp
    have "product_lists (xs # rest) ! n ! j = product_lists rest ! (n mod ?m) ! j'"
      using row Suc by simp
    also have "\<dots> = rest ! j' ! (((n mod ?m) div ?d) mod ?l)"
      using Cons.IH [OF nm j'] .
    also have "((n mod ?m) div ?d) mod ?l = (n div ?d) mod ?l"
    proof -
      let ?a = "prod_list (map length (take j' rest))"
      have "(n mod ?m) div ?d = (n mod (?d * (?a * ?l))) div ?d"
        by (simp add: split mult.commute mult.left_commute)
      also have "\<dots> = (n div ?d) mod (?a * ?l)"
      proof (rule mod_mult_div)
        show "0 < ?d" using m split by (cases ?d) simp_all
      qed
      finally have "((n mod ?m) div ?d) mod ?l = ((n div ?d) mod (?a * ?l)) mod ?l" by simp
      also have "\<dots> = (n div ?d) mod ?l"
        by (simp add: mod_mod_cancel)
      finally show ?thesis .
    qed
    finally show ?thesis using Suc by simp
  qed
qed

lemma subl_combination_eq:
  "subl_combination tc sc =
     Inr (product_lists (map (\<lambda>k. the (map_of (dict_py (zip tc sc)) k))
                           (sort (map fst (dict_py (zip tc sc))))))"
proof -
  let ?d = "dict_py (zip tc sc)"
  have "\<forall>k\<in>set (sort (map fst ?d)). map_of ?d k \<noteq> None"
    by (simp add: map_of_key)
  then show ?thesis
    by (simp add: subl_combination_def Let_def those_map_Some product_eq)
qed

lemma map_of_zip_distinct:
  "distinct xs \<Longrightarrow> i < length xs \<Longrightarrow> i < length ys \<Longrightarrow>
   map_of (zip xs ys) (xs ! i) = Some (ys ! i)"
proof (induction xs arbitrary: ys i)
  case Nil
  then show ?case by simp
next
  case (Cons x xs)
  then obtain y ys' where ys: "ys = y # ys'" by (cases ys) auto
  show ?case
  proof (cases i)
    case 0
    then show ?thesis using ys by simp
  next
    case (Suc i')
    then have "xs ! i' \<noteq> x" using Cons.prems by auto
    then show ?thesis using Cons Suc ys by simp
  qed
qed

lemma distinct_zip_keys: "distinct xs \<Longrightarrow> distinct (map fst (zip xs ys))"
  by (simp add: map_fst_zip_take)


lemma prod_list_insort:
  "prod_list (map h (insort x ys)) = (h x :: nat) * prod_list (map h ys)"
  by (induction ys) simp_all

lemma prod_list_sort: "prod_list (map h (sort xs)) = (prod_list (map h xs) :: nat)"
  by (induction xs) (simp_all add: prod_list_insort)


lemma endmember_loop_ok:
  "\<forall>c\<in>set combs. \<exists>s. sub ts [tc] [c] = Inr s \<Longrightarrow>
   \<exists>outs. endmember_loop sub ts tc combs acc = Inr (acc @ outs) \<and>
          length outs = length combs \<and>
          (\<forall>n<length combs. sub ts [tc] [combs ! n] = Inr (outs ! n))"
proof (induction combs arbitrary: acc)
  case Nil
  then show ?case by simp
next
  case (Cons c combs)
  then obtain s where s: "sub ts [tc] [c] = Inr s" by auto
  from Cons.prems have "\<forall>c\<in>set combs. \<exists>s. sub ts [tc] [c] = Inr s" by simp
  from Cons.IH [OF this, of "acc @ [s]"] obtain outs where outs:
    "endmember_loop sub ts tc combs (acc @ [s]) = Inr ((acc @ [s]) @ outs)"
    "length outs = length combs"
    "\<forall>n<length combs. sub ts [tc] [combs ! n] = Inr (outs ! n)" by blast
  have 1: "endmember_loop sub ts tc (c # combs) acc = Inr (acc @ (s # outs))"
    using s outs(1) by simp
  have 2: "length (s # outs) = length (c # combs)" using outs(2) by simp
  have 3: "\<forall>n<length (c # combs). sub ts [tc] [(c # combs) ! n] = Inr ((s # outs) ! n)"
    using s outs(3) by (auto simp: nth_Cons split: nat.splits)
  from 1 2 3 show ?case by blast
qed

lemma endmember_loop_err:
  "endmember_loop sub ts tc combs acc = Inl e \<Longrightarrow> \<exists>c\<in>set combs. sub ts [tc] [c] = Inl e"
  by (induction combs arbitrary: acc) (auto split: sum.splits)




lemma pools_of_sorted_keys:
  assumes d: "distinct tc" and l: "length sc = length tc"
  shows "subl_combination tc sc =
           Inr (product_lists (map (\<lambda>k. the (map_of (zip tc sc) k)) (sort tc)))"
proof -
  have "dict_py (zip tc sc) = zip tc sc"
    using d by (simp add: dict_py_distinct distinct_zip_keys)
  moreover have "map fst (zip tc sc) = tc" using l by simp
  ultimately show ?thesis by (simp add: subl_combination_eq)
qed

lemma pools_unsorted:
  assumes d: "distinct tc" and l: "length sc = length tc"
  shows "map (\<lambda>k. the (map_of (zip tc sc) k)) tc = sc"
proof (rule nth_equalityI)
  show "length (map (\<lambda>k. the (map_of (zip tc sc) k)) tc) = length sc" using l by simp
next
  fix i assume "i < length (map (\<lambda>k. the (map_of (zip tc sc) k)) tc)"
  then have i: "i < length tc" by simp
  then show "map (\<lambda>k. the (map_of (zip tc sc) k)) tc ! i = sc ! i"
    using d l by (simp add: map_of_zip_distinct)
qed

text \<open>
  Claim C4.  Let the placeholders be distinct and \<open>sc\<close> hold one candidate list for each.
  The pools are the candidate lists rearranged into the sorted order of their
  placeholders, and the combinations are their Cartesian product, of \<open>n1 * ... * nk\<close>
  tuples, tuple \<open>n\<close> taking from pool \<open>j\<close> the entry that the mixed-radix digits of \<open>n\<close> select,
  the last pool varying fastest.  When the substitution engine succeeds on every tuple the
  call returns \<open>n1 * ... * nk\<close> structures, structure \<open>n\<close> being the engine's answer for tuple
  \<open>n\<close>; an error of the call is the engine's error for one of the tuples.
\<close>

theorem endmember_count_and_order:
  assumes d: "distinct tc" and l: "length sc = length tc"
  shows "\<exists>pools.
           length pools = length tc \<and>
           (\<forall>j<length tc. \<forall>i<length tc. sort tc ! j = tc ! i \<longrightarrow> pools ! j = sc ! i) \<and>
           length (product_lists pools) = prod_list (map length sc) \<and>
           (\<forall>n<length (product_lists pools). \<forall>j<length tc.
              product_lists pools ! n ! j =
                pools ! j ! ((n div prod_list (map length (drop (Suc j) pools)))
                               mod length (pools ! j))) \<and>
           ((\<forall>c\<in>set (product_lists pools). \<exists>s. substitute ts [tc] [c] = Inr s) \<longrightarrow>
              (\<exists>outs. get_endmembers_with_templates substitute ts tc sc = Inr outs \<and>
                      length outs = prod_list (map length sc) \<and>
                      (\<forall>n<length outs.
                         substitute ts [tc] [product_lists pools ! n] = Inr (outs ! n)))) \<and>
           (\<forall>e. get_endmembers_with_templates substitute ts tc sc = Inl e \<longrightarrow>
                  (\<exists>c\<in>set (product_lists pools). substitute ts [tc] [c] = Inl e))"
proof -
  let ?h = "\<lambda>k. the (map_of (zip tc sc) k)"
  let ?pools = "map ?h (sort tc)"
  have sub: "subl_combination tc sc = Inr (product_lists ?pools)"
    using d l by (rule pools_of_sorted_keys)
  have g: "get_endmembers_with_templates substitute ts tc sc =
             endmember_loop substitute ts tc (product_lists ?pools) []"
    using sub by (simp add: get_endmembers_with_templates_def)
  have lp: "length ?pools = length tc" by simp
  have al: "\<forall>j<length tc. \<forall>i<length tc. sort tc ! j = tc ! i \<longrightarrow> ?pools ! j = sc ! i"
    using d l by (simp add: map_of_zip_distinct)
  have "prod_list (map length ?pools) = prod_list (map (\<lambda>k. length (?h k)) (sort tc))"
    by (simp add: comp_def)
  also have "\<dots> = prod_list (map (\<lambda>k. length (?h k)) tc)" by (rule prod_list_sort)
  also have "\<dots> = prod_list (map length (map ?h tc))" by (simp add: comp_def)
  also have "\<dots> = prod_list (map length sc)" using d l by (simp only: pools_unsorted)
  finally have pl: "prod_list (map length ?pools) = prod_list (map length sc)" .
  have n: "length (product_lists ?pools) = prod_list (map length sc)"
    using pl by (simp only: length_product_lists)
  have ix: "\<forall>n<length (product_lists ?pools). \<forall>j<length tc.
              product_lists ?pools ! n ! j =
                ?pools ! j ! ((n div prod_list (map length (drop (Suc j) ?pools)))
                               mod length (?pools ! j))"
  proof (intro allI impI)
    fix n j assume "n < length (product_lists ?pools)" and "j < length tc"
    then have "n < prod_list (map length ?pools)" and "j < length ?pools"
      by (simp_all only: length_product_lists lp)
    then show "product_lists ?pools ! n ! j =
                ?pools ! j ! ((n div prod_list (map length (drop (Suc j) ?pools)))
                               mod length (?pools ! j))"
      by (rule product_lists_nth)
  qed
  have ok: "(\<forall>c\<in>set (product_lists ?pools). \<exists>s. substitute ts [tc] [c] = Inr s) \<longrightarrow>
              (\<exists>outs. get_endmembers_with_templates substitute ts tc sc = Inr outs \<and>
                      length outs = prod_list (map length sc) \<and>
                      (\<forall>n<length outs.
                         substitute ts [tc] [product_lists ?pools ! n] = Inr (outs ! n)))"
  proof
    assume "\<forall>c\<in>set (product_lists ?pools). \<exists>s. substitute ts [tc] [c] = Inr s"
    with endmember_loop_ok [where combs = "product_lists ?pools" and sub = substitute
           and ts = ts and tc = tc and acc = "[]"]
    obtain outs where outs:
      "endmember_loop substitute ts tc (product_lists ?pools) [] = Inr outs"
      "length outs = length (product_lists ?pools)"
      "\<forall>n<length (product_lists ?pools).
          substitute ts [tc] [product_lists ?pools ! n] = Inr (outs ! n)"
      by auto
    have "get_endmembers_with_templates substitute ts tc sc = Inr outs"
      using g outs(1) by simp
    moreover have "length outs = prod_list (map length sc)" using outs(2) n by simp
    moreover have "\<forall>n<length outs.
        substitute ts [tc] [product_lists ?pools ! n] = Inr (outs ! n)"
      using outs(2,3) by simp
    ultimately show "\<exists>outs. get_endmembers_with_templates substitute ts tc sc = Inr outs \<and>
                      length outs = prod_list (map length sc) \<and>
                      (\<forall>n<length outs.
                         substitute ts [tc] [product_lists ?pools ! n] = Inr (outs ! n))"
      by blast
  qed
  have err: "\<forall>e. get_endmembers_with_templates substitute ts tc sc = Inl e \<longrightarrow>
                  (\<exists>c\<in>set (product_lists ?pools). substitute ts [tc] [c] = Inl e)"
    using g endmember_loop_err [of substitute ts tc "product_lists ?pools" "[]"] by simp
  from lp al n ix ok err show ?thesis by blast
qed

lemma rocksalt_engine_total:
  "length comb = 2 \<Longrightarrow>
     \<exists>s. substitute_configuration rocksalt_template [[''H'', ''He'']] [comb] = Inr s"
  by (simp add: substitute_configuration_def species_def rocksalt_template_def mk_site_def)

lemma rocksalt_endmembers:
  "get_endmembers_with_templates substitute_configuration rocksalt_template
     [''H'', ''He''] [[''Na'', ''K''], [''Cl'']] =
   Inr [\<lparr>lattice = (), sites = [mk_site ''Na'' 0, mk_site ''Cl'' 1]\<rparr>,
        \<lparr>lattice = (), sites = [mk_site ''K'' 0, mk_site ''Cl'' 1]\<rparr>]"
proof -
  have s: "sort [''H'', ''He''] = [''H'', ''He'']" by simp
  have c: "subl_combination [''H'', ''He''] [[''Na'', ''K''], [''Cl'']] =
             Inr [[''Na'', ''Cl''], [''K'', ''Cl'']]"
    by (simp add: pools_of_sorted_keys s del: sort_key_simps)
  show ?thesis
    by (simp add: get_endmembers_with_templates_def c substitute_configuration_def
          species_def replace_species_def rocksalt_template_def mk_site_def)
qed

text \<open>The rock-salt scenario of the specification: candidates Na, K and Cl, two
  endmembers, NaCl before KCl.\<close>

theorem endmember_count_and_order_witness:
  "distinct [''H'', ''He''] \<and>
   length [[''Na'', ''K''], [''Cl'']] = length [''H'', ''He''] \<and>
   (\<exists>outs. get_endmembers_with_templates substitute_configuration rocksalt_template
              [''H'', ''He''] [[''Na'', ''K''], [''Cl'']] = Inr outs \<and>
           length outs = 2 \<and>
           map species outs = [[''Na'', ''Cl''], [''K'', ''Cl'']])"
proof -
  have d: "distinct [''H'', ''He'']" by simp
  have l: "length [[''Na'', ''K''], [''Cl'']] = length [''H'', ''He'']" by simp
  from endmember_count_and_order [of "[''H'', ''He'']" "[[''Na'', ''K''], [''Cl'']]" substitute_configuration
             rocksalt_template] d l
  obtain pools where p: "length pools = length [''H'', ''He'']"
    and r: "(\<forall>c\<in>set (product_lists pools).
               \<exists>s. substitute_configuration rocksalt_template [[''H'', ''He'']] [c] = Inr s) \<longrightarrow>
            (\<exists>outs. get_endmembers_with_templates substitute_configuration rocksalt_template
                      [''H'', ''He''] [[''Na'', ''K''], [''Cl'']] = Inr outs \<and>
                    length outs = prod_list (map length [[''Na'', ''K''], [''Cl'']]) \<and>
                    (\<forall>n<length outs.
                       substitute_configuration rocksalt_template [[''H'', ''He'']]
                         [product_lists pools ! n] = Inr (outs ! n)))"
    by blast
  have "\<forall>c\<in>set (product_lists pools).
          \<exists>s. substitute_configuration rocksalt_template [[''H'', ''He'']] [c] = Inr s"
  proof
    fix c assume "c \<in> set (product_lists pools)"
    then have "length c = 2" using p by (simp add: product_lists_length_each)
    then show "\<exists>s. substitute_configuration rocksalt_template [[''H'', ''He'']] [c] = Inr s"
      by (rule rocksalt_engine_total)
  qed
  with r obtain outs where o:
    "get_endmembers_with_templates substitute_configuration rocksalt_template
        [''H'', ''He''] [[''Na'', ''K''], [''Cl'']] = Inr outs"
    "length outs = prod_list (map length [[''Na'', ''K''], [''Cl'']])"
    by blast
  have "map species outs = [[''Na'', ''Cl''], [''K'', ''Cl'']]"
    using o(1) by (auto simp: rocksalt_endmembers species_def mk_site_def)
  then show ?thesis using d l o by simp
qed

lemma species_replace_species:
  "species (replace_species m s) =
     map (\<lambda>x. case map_of m x of Some e \<Rightarrow> e | None \<Rightarrow> x) (species s)"
  by (simp add: species_def replace_species_def comp_def split: option.splits)

lemma abcd_labels:
  "snd (get_sublattice_information abcd_analyzer abcd_structure None) =
     Inr (map (\<lambda>l. [(''sublattice_sites'', l)]) [''a'', ''b'', ''c'', ''d''],
          [''a'', ''b'', ''c'', ''d''])"
  by (simp add: gsi_snd abcd_analyzer_def sorted_set_def)

lemma abcd_template:
  "\<exists>ts. snd (get_templates abcd_analyzer abcd_structure None) =
           Inr (ts, [''H'', ''He'', ''Li'', ''Be'']) \<and>
         species ts = [''H'', ''He'', ''Li'', ''Be'']"
proof -
  have u: "[0..<4] = [0, 1, 2, 3]" by (simp add: upt_rec)
  have len: "length (sites abcd_structure) \<le> length [''a'', ''b'', ''c'', ''d'']"
    by (simp add: abcd_structure_def)
  have nn: "length [''a'', ''b'', ''c'', ''d''] \<le> length element_symbols"
    by (simp add: length_element_symbols)
  note e = get_templates_eq [OF abcd_labels len nn]
  have tc: "map (\<lambda>i. element_symbols ! i) [0..<length [''a'', ''b'', ''c'', ''d'']] =
            [''H'', ''He'', ''Li'', ''Be'']"
    by (simp add: u element_symbols_def)
  show ?thesis
    unfolding e tc
    by (simp add: u species_def normalized_eq abcd_structure_def mk_site_def
          element_symbols_def dict_update_def)
qed

lemma sorted_placeholders:
  "subl_combination [''H'', ''He'', ''Li'', ''Be''] [[''Na''], [''K''], [''Mg''], [''Ca'']] =
     Inr [[''Ca'', ''Na'', ''K'', ''Mg'']]"
proof -
  have s: "sort [''H'', ''He'', ''Li'', ''Be''] = [''Be'', ''H'', ''He'', ''Li'']"
    by simp
  show ?thesis
    by (simp add: pools_of_sorted_keys s del: sort_key_simps)
qed

text \<open>
  Claim C1.  A structure with four sublattices (Wyckoff letters a, b, c, d) has the
  template configuration H, He, Li, Be.  With the candidate lists Na, K, Mg, Ca, one for
  each sublattice in this order, the keys sort to Be, H, He, Li and the single combination
  is Ca, Na, K, Mg.  Line 109 hands it to the substitution engine beside the unsorted
  template configuration, for every engine; the engine of the specification, which pairs
  the two positionally, puts Ca on the first sublattice, Na on the second, K on the third
  and Mg on the fourth.
\<close>

theorem endmembers_misaligned_with_four_sublattices:
  "\<exists>ts. snd (get_templates abcd_analyzer abcd_structure None) =
           Inr (ts, [''H'', ''He'', ''Li'', ''Be'']) \<and>
         species ts = [''H'', ''He'', ''Li'', ''Be''] \<and>
         get_endmembers_with_templates substitute ts [''H'', ''He'', ''Li'', ''Be'']
             [[''Na''], [''K''], [''Mg''], [''Ca'']] =
           (case substitute ts [[''H'', ''He'', ''Li'', ''Be'']] [[''Ca'', ''Na'', ''K'', ''Mg'']] of
              Inl e \<Rightarrow> Inl e | Inr s \<Rightarrow> Inr [s]) \<and>
         (\<exists>e. get_endmembers_with_templates substitute_configuration ts
                 [''H'', ''He'', ''Li'', ''Be''] [[''Na''], [''K''], [''Mg''], [''Ca'']] = Inr [e] \<and>
              species e = [''Ca'', ''Na'', ''K'', ''Mg''])"
proof -
  from abcd_template obtain ts where ts:
    "snd (get_templates abcd_analyzer abcd_structure None) = Inr (ts, [''H'', ''He'', ''Li'', ''Be''])"
    "species ts = [''H'', ''He'', ''Li'', ''Be'']" by blast
  have g: "\<And>sub. get_endmembers_with_templates sub ts [''H'', ''He'', ''Li'', ''Be'']
             [[''Na''], [''K''], [''Mg''], [''Ca'']] =
           (case sub ts [[''H'', ''He'', ''Li'', ''Be'']] [[''Ca'', ''Na'', ''K'', ''Mg'']] of
              Inl e \<Rightarrow> Inl e | Inr s \<Rightarrow> Inr [s])"
    by (simp add: get_endmembers_with_templates_def sorted_placeholders split: sum.splits)
  have sc: "substitute_configuration ts [[''H'', ''He'', ''Li'', ''Be'']]
              [[''Ca'', ''Na'', ''K'', ''Mg'']] =
            Inr (replace_species (zip [''H'', ''He'', ''Li'', ''Be''] [''Ca'', ''Na'', ''K'', ''Mg'']) ts)"
    by (simp add: substitute_configuration_def ts(2))
  have sp: "species (replace_species (zip [''H'', ''He'', ''Li'', ''Be''] [''Ca'', ''Na'', ''K'', ''Mg'']) ts)
            = [''Ca'', ''Na'', ''K'', ''Mg'']"
    by (simp add: species_replace_species ts(2))
  show ?thesis using ts g [of substitute] g [of substitute_configuration] sc sp by auto
qed

end
